theory Spec2Isabelle
  imports Complex_Main "HOL-Library.Word"
begin

section \<open>Data model\<close>

text \<open>
  The compressor of \<^verbatim>\<open>compress.py\<close> works on numpy arrays.  A two-dimensional array is
  modelled by its shape and its cell function, so that an array without rows still has a
  width, as a numpy array of shape \<open>(0, w)\<close> has.  Only the cells inside the shape are
  meaningful.

  Floating-point numbers (\<open>float32\<close> and \<open>float64\<close>) are modelled by exact reals: the
  rounding of the machine arithmetic, infinities and NaN are outside the model.
\<close>

datatype 'a array2 = Array2 (nrows: nat) (ncols: nat) (cell: "nat \<Rightarrow> nat \<Rightarrow> 'a")

text \<open>An image as \<open>cv2.imread\<close> returns it: shape \<open>(height, width, 3)\<close>, cells of type \<open>uint8\<close>.\<close>

datatype image = Image (height: nat) (width: nat) (px: "nat \<Rightarrow> nat \<Rightarrow> nat \<Rightarrow> 8 word")

text \<open>A block is an 8x8 matrix, stored as its list of rows.\<close>

type_synonym block = "real list list"

text \<open>
  The result of \<open>skimage.util.view_as_blocks\<close>: an array of shape
  \<open>(block_height, block_width, 8, 8)\<close>.
\<close>

datatype blocks = Blocks (block_height: nat) (block_width: nat) (block_at: "nat \<Rightarrow> nat \<Rightarrow> block")

text \<open>
  The elements of an encoded channel.  Python stores a bare integer, a two-element list
  \<open>[num, value]\<close>, and (at the end of the luma channel) the two rates as they were passed
  in.
\<close>

datatype entry = Scalar int | Pair nat int | RateVal real

datatype error = IndexError | ValueError

section \<open>ColorTransform: \<open>rgb_to_ycbcr\<close>\<close>

text \<open>Python's \<open>int(x)\<close> on a float, and numpy's \<open>trunc\<close>: rounding towards zero.\<close>

definition py_int :: "real \<Rightarrow> int" where
  "py_int x = (if 0 \<le> x then \<lfloor>x\<rfloor> else \<lceil>x\<rceil>)"




section \<open>ChromaSubsampler: \<open>down_sample_cbcr\<close>\<close>

text \<open>The plane \<open>img[:, :, c]\<close>.\<close>

definition channel :: "image \<Rightarrow> nat \<Rightarrow> 8 word array2" where
  "channel img c = Array2 (height img) (width img) (\<lambda>i j. px img i j c)"

text \<open>\<open>np.float32\<close> of a \<open>uint8\<close> plane: every value 0..255 is represented exactly.\<close>

definition float32 :: "8 word array2 \<Rightarrow> real array2" where
  "float32 a = Array2 (nrows a) (ncols a) (\<lambda>i j. real (unat (cell a i j)))"

text \<open>
  The indices an extended slice \<open>[::step]\<close> selects on an axis of length \<open>n\<close>:
  \<open>0, step, 2 * step, ...\<close> below \<open>n\<close>.
\<close>

definition slice_indices :: "nat \<Rightarrow> nat \<Rightarrow> nat list" where
  "slice_indices n step = filter (\<lambda>k. k mod step = 0) [0..<n]"

text \<open>The slicing \<open>a[::step, ::step]\<close>.\<close>

definition step_slice :: "nat \<Rightarrow> 'a array2 \<Rightarrow> 'a array2" where
  "step_slice step a =
     Array2 (length (slice_indices (nrows a) step)) (length (slice_indices (ncols a) step))
       (\<lambda>i j. cell a (slice_indices (nrows a) step ! i) (slice_indices (ncols a) step ! j))"

text \<open>
  \<open>cv2.boxFilter\<close> belongs to OpenCV and is a parameter of the model: \<open>boxFilter k a\<close>
  stands for \<open>cv2.boxFilter(a, ddepth=-1, ksize=(k, k))\<close>.  OpenCV returns an array of the
  shape and depth of its input, which is what \<open>keeps_shape\<close> says.
\<close>

definition keeps_shape :: "(nat \<Rightarrow> 8 word array2 \<Rightarrow> 8 word array2) \<Rightarrow> bool" where
  "keeps_shape boxFilter =
     (\<forall>k a. nrows (boxFilter k a) = nrows a \<and> ncols (boxFilter k a) = ncols a)"

definition down_sample_cbcr ::
  "(nat \<Rightarrow> 8 word array2 \<Rightarrow> 8 word array2) \<Rightarrow> image \<Rightarrow> int \<Rightarrow> real array2 list" where
  "down_sample_cbcr boxFilter YCbCr sample_factor =
     (if sample_factor > 1 then
        let cb_box = boxFilter (nat sample_factor) (channel YCbCr 1);
            cr_box = boxFilter (nat sample_factor) (channel YCbCr 2);
            cb_down = step_slice (nat sample_factor) cb_box;
            cr_down = step_slice (nat sample_factor) cr_box
        in [float32 (channel YCbCr 0), float32 cb_down, float32 cr_down]
      else [float32 (channel YCbCr 0), float32 (channel YCbCr 1), float32 (channel YCbCr 2)])"

section \<open>BlockTransformQuantizer: \<open>dct_and_quantise_img\<close>\<close>

definition is_8x8 :: "block \<Rightarrow> bool" where
  "is_8x8 b = (length b = 8 \<and> list_all (\<lambda>row. length row = 8) b)"


text \<open>
  Lines 77 to 80: the crop to multiples of 8.  \<open>len(img[ch][0])\<close> raises \<open>IndexError\<close> on
  an array without rows.
\<close>

definition crop_to_8 :: "real array2 \<Rightarrow> error + real array2" where
  "crop_to_8 p =
     (let height = nrows p; width = ncols p
      in if height mod 8 > 0 \<or> width mod 8 > 0 then
           (if nrows p = 0 then Inl IndexError
            else Inr (Array2 (nrows p - height mod 8) (ncols p - width mod 8) (cell p)))
         else Inr p)"

text \<open>
  \<open>skimage.util.view_as_blocks\<close> with block shape \<open>(8, 8)\<close>: it raises \<open>ValueError\<close> when a
  dimension is not a multiple of 8, and block \<open>(i, j)\<close> holds the cells of rows
  \<open>8 i, ..., 8 i + 7\<close> and columns \<open>8 j, ..., 8 j + 7\<close>.
\<close>

definition view_as_blocks :: "real array2 \<Rightarrow> error + blocks" where
  "view_as_blocks p =
     (if nrows p mod 8 \<noteq> 0 \<or> ncols p mod 8 \<noteq> 0 then Inl ValueError
      else Inr (Blocks (nrows p div 8) (ncols p div 8)
             (\<lambda>i j. map (\<lambda>x. map (\<lambda>y. cell p (8 * i + x) (8 * j + y)) [0..<8]) [0..<8])))"

text \<open>Lines 77 to 85: crop, then split.\<close>

definition split_into_blocks :: "real array2 \<Rightarrow> error + blocks" where
  "split_into_blocks p = (case crop_to_8 p of Inl e \<Rightarrow> Inl e | Inr cropped \<Rightarrow> view_as_blocks cropped)"

text \<open>
  \<open>np.trunc(block / (Q * rate))\<close>, element by element.  The reference matrices
  \<open>JRpeg_util.Qlum\<close> and \<open>JRpeg_util.Qchrom\<close> are not among the sources and are parameters
  of the model, as is OpenCV's \<open>cv2.dct\<close>.
\<close>

definition quantise :: "block \<Rightarrow> block \<Rightarrow> real \<Rightarrow> block" where
  "quantise block Q rate = map2 (map2 (\<lambda>c q. real_of_int (py_int (c / (q * rate))))) block Q"

text \<open>Lines 94 to 103: what happens to one block of channel \<open>ch\<close>.\<close>

definition transform_block ::
  "(block \<Rightarrow> block) \<Rightarrow> block \<Rightarrow> block \<Rightarrow> real \<Rightarrow> real \<Rightarrow> nat \<Rightarrow> block \<Rightarrow> block" where
  "transform_block dct Qlum Qchrom QL_rate QC_rate ch block0 =
     (let block = dct (map (map (\<lambda>v. v - 128)) block0)
      in if ch = 0 then (if QL_rate > 0 then quantise block Qlum QL_rate else block)
         else (if QC_rate > 0 then quantise block Qchrom QC_rate else block))"

text \<open>The assignment \<open>img[ch][i, j] = block\<close>.\<close>

definition set_block :: "blocks \<Rightarrow> nat \<Rightarrow> nat \<Rightarrow> block \<Rightarrow> blocks" where
  "set_block B i j b =
     Blocks (block_height B) (block_width B)
       (\<lambda>i' j'. if i' = i \<and> j' = j then b else block_at B i' j')"

text \<open>The loops of lines 87 to 105, updating the block grid in place.\<close>

definition transform_row :: "(block \<Rightarrow> block) \<Rightarrow> nat \<Rightarrow> blocks \<Rightarrow> blocks" where
  "transform_row f i B = fold (\<lambda>j B. set_block B i j (f (block_at B i j))) [0..<block_width B] B"

definition transform_blocks :: "(block \<Rightarrow> block) \<Rightarrow> blocks \<Rightarrow> blocks" where
  "transform_blocks f B = fold (transform_row f) [0..<block_height B] B"

definition dct_and_quantise_channel ::
  "(block \<Rightarrow> block) \<Rightarrow> block \<Rightarrow> block \<Rightarrow> real \<Rightarrow> real \<Rightarrow> nat \<Rightarrow> real array2 \<Rightarrow> error + blocks" where
  "dct_and_quantise_channel dct Qlum Qchrom QL_rate QC_rate ch p =
     (case split_into_blocks p of
        Inl e \<Rightarrow> Inl e
      | Inr B \<Rightarrow> Inr (transform_blocks (transform_block dct Qlum Qchrom QL_rate QC_rate ch) B))"



section \<open>Serializer: \<open>encode_and_save_quantised_dct_img\<close>\<close>

text \<open>
  Modelled from the spec: \<open>JRpeg_util.zigzag_block\<close> is not among the sources.  The spec
  describes it as the standard JPEG diagonal zigzag scan from the top-left (DC) corner to
  the bottom-right corner of the 8x8 block: the anti-diagonals \<open>row + column = s\<close> in the
  order \<open>s = 0, ..., 14\<close>, the odd ones walked downwards and the even ones upwards.
\<close>

definition zigzag_diagonal :: "nat \<Rightarrow> (nat \<times> nat) list" where
  "zigzag_diagonal s =
     (let cells = map (\<lambda>i. (i, s - i)) (filter (\<lambda>i. i \<le> s \<and> s - i < 8) [0..<8])
      in if even s then rev cells else cells)"

definition zigzag_order :: "(nat \<times> nat) list" where
  "zigzag_order = concat (map zigzag_diagonal [0..<15])"

definition zigzag_block :: "block \<Rightarrow> real list" where
  "zigzag_block b = map (\<lambda>(x, y). b ! x ! y) zigzag_order"

text \<open>
  \<open>itertools.groupby\<close> without a key function: the maximal runs of consecutive equal
  elements, each with its key.
\<close>

function groupby :: "'a list \<Rightarrow> ('a \<times> 'a list) list" where
  "groupby [] = []"
| "groupby (x # xs) = (x, x # takeWhile (\<lambda>y. y = x) xs) # groupby (dropWhile (\<lambda>y. y = x) xs)"
  by pat_completeness auto
termination
  by (relation "measure length") (auto simp: less_Suc_eq_le length_dropWhile_le)

text \<open>
  The two nested loops over the block grid, each block appended to the channel's list
  (\<open>encoded_list[ch] += zigzag_block(block)\<close>).
\<close>

definition zigzag_row :: "blocks \<Rightarrow> nat \<Rightarrow> real list \<Rightarrow> real list" where
  "zigzag_row img_ch i acc =
     fold (\<lambda>j acc. acc @ zigzag_block (block_at img_ch i j)) [0..<block_width img_ch] acc"

definition zigzag_channel :: "blocks \<Rightarrow> real list" where
  "zigzag_channel img_ch = fold (zigzag_row img_ch) [0..<block_height img_ch] []"

text \<open>The comprehension \<open>[[len(list(group)), key] for key, group in groupby(...)]\<close>.\<close>

definition rle_groups :: "int list \<Rightarrow> entry list" where
  "rle_groups xs = map (\<lambda>(key, group). Pair (length group) key) (groupby xs)"

text \<open>
  The loop \<open>for x in range(len(encoded_list[ch]))\<close> that replaces a pair of run length 1
  by its bare value, in place.  Every index is visited once, while its element is still
  a pair; the last case is never reached.
\<close>

fun unpack_singles :: "nat list \<Rightarrow> entry list \<Rightarrow> entry list" where
  "unpack_singles [] es = es"
| "unpack_singles (x # xs) es =
     unpack_singles xs
       (case es ! x of
          Pair num val \<Rightarrow> if num = 1 then es[x := Scalar val] else es
        | _ \<Rightarrow> es)"

text \<open>One channel before its metadata: lines 119 to 138.\<close>

definition rle_channel :: "blocks \<Rightarrow> entry list" where
  "rle_channel img_ch =
     (let flat = zigzag_channel img_ch;
          ints = map py_int flat;
          grouped = rle_groups ints
      in unpack_singles [0..<length grouped] grouped)"

definition encode_channel :: "blocks \<Rightarrow> entry list" where
  "encode_channel img_ch =
     rle_channel img_ch @ [Scalar (int (block_height img_ch)), Scalar (int (block_width img_ch))]"

text \<open>
  The whole function.  The model returns the encoded list; writing it to the file with
  \<open>pickle.dump\<close> is outside the model.
\<close>

definition encode_and_save_quantised_dct_img :: "blocks list \<Rightarrow> real \<Rightarrow> real \<Rightarrow> entry list list" where
  "encode_and_save_quantised_dct_img img_blocks QL_rate QC_rate =
     (let encoded_list = map (\<lambda>ch. encode_channel (img_blocks ! ch)) [0..<3]
      in encoded_list[0 := encoded_list ! 0 @ [RateVal QL_rate, RateVal QC_rate]])"

text \<open>
  What a decoder does with the entries, in the words of the spec: a pair expands to
  \<open>run_length\<close> copies of its value, a bare scalar to itself.
\<close>

fun expand_entry :: "entry \<Rightarrow> int list" where
  "expand_entry (Scalar v) = [v]"
| "expand_entry (Pair n v) = replicate n v"
| "expand_entry (RateVal r) = []"

definition expand_entries :: "entry list \<Rightarrow> int list" where
  "expand_entries es = concat (map expand_entry es)"

text \<open>The number of trailing metadata entries of a channel: four for luma, two for chroma.\<close>

definition meta_count :: "nat \<Rightarrow> nat" where
  "meta_count ch = (if ch = 0 then 4 else 2)"

definition pre_metadata :: "nat \<Rightarrow> entry list \<Rightarrow> entry list" where
  "pre_metadata ch es = take (length es - meta_count ch) es"

fun entry_value :: "entry \<Rightarrow> int" where
  "entry_value (Scalar v) = v"
| "entry_value (Pair n v) = v"
| "entry_value (RateVal r) = 0"

section \<open>The pipeline: \<open>compress\<close>\<close>


section \<open>Auxiliary definitions\<close>

text \<open>What one step of the loop of \<open>unpack_singles\<close> does to the element it visits.\<close>

definition unpack1 :: "entry \<Rightarrow> entry" where
  "unpack1 e = (case e of Pair num val \<Rightarrow> if num = 1 then Scalar val else e | _ \<Rightarrow> e)"

text \<open>Concrete inputs for the examples.\<close>

definition zero_block :: block where
  "zero_block = replicate 8 (replicate 8 0)"

definition ramp_block :: block where
  "ramp_block = map (\<lambda>x. map (\<lambda>y. real (8 * x + y)) [0..<8]) [0..<8]"

definition one_block :: "block \<Rightarrow> blocks" where
  "one_block b = Blocks 1 1 (\<lambda>i j. b)"


definition ramp_plane :: "nat \<Rightarrow> nat \<Rightarrow> real array2" where
  "ramp_plane h w = Array2 h w (\<lambda>i j. real (100 * i + j))"

definition flat_matrix :: "real \<Rightarrow> block" where
  "flat_matrix q = replicate 8 (replicate 8 q)"




section \<open>Properties of the serializer\<close>

lemma length_zigzag_order: "length zigzag_order = 64"
  by (simp add: zigzag_order_def zigzag_diagonal_def upt_rec)

lemma zigzag_order_bounds: "\<forall>(x, y) \<in> set zigzag_order. x < 8 \<and> y < 8"
  by (simp add: zigzag_order_def zigzag_diagonal_def upt_rec)

lemma zigzag_order_distinct: "distinct zigzag_order"
  by (simp add: zigzag_order_def zigzag_diagonal_def upt_rec)

lemma length_zigzag_block: "length (zigzag_block b) = 64"
  by (simp add: zigzag_block_def length_zigzag_order)

lemma fold_append_concat: "fold (\<lambda>j acc. acc @ f j) js acc = acc @ concat (map f js)"
  by (induction js arbitrary: acc) auto

lemma zigzag_channel_concat:
  "zigzag_channel B = concat (map (\<lambda>i. concat (map (\<lambda>j. zigzag_block (block_at B i j)) [0..<block_width B])) [0..<block_height B])"
proof -
  have "fold (zigzag_row B) is acc = acc @ concat (map (\<lambda>i. concat (map (\<lambda>j. zigzag_block (block_at B i j)) [0..<block_width B])) is)" for "is" acc
    by (induction "is" arbitrary: acc) (auto simp: zigzag_row_def fold_append_concat)
  then show ?thesis by (simp add: zigzag_channel_def)
qed

lemma length_concat_const: "(\<And>x. x \<in> set xs \<Longrightarrow> length (f x) = c) \<Longrightarrow> length (concat (map f xs)) = length xs * c"
  by (induction xs) auto

lemma length_zigzag_channel: "length (zigzag_channel B) = block_height B * block_width B * 64"
  by (simp add: zigzag_channel_concat length_concat_const length_zigzag_block)

lemma groupby_concat: "concat (map snd (groupby xs)) = xs"
  by (induction xs rule: groupby.induct) auto

lemma groupby_runs: "(k, g) \<in> set (groupby xs) \<Longrightarrow> g = replicate (length g) k \<and> 0 < length g"
proof (induction xs rule: groupby.induct)
  case 1 then show ?case by simp
next
  case (2 x xs)
  have "takeWhile (\<lambda>y. y = x) xs = replicate (length (takeWhile (\<lambda>y. y = x) xs)) x"
    by (rule replicate_length_same[symmetric]) (auto dest: set_takeWhileD)
  with 2 show ?case by auto
qed


lemma unpack_singles_upt:
  "k \<le> length es \<Longrightarrow> unpack_singles [k..<length es] es = take k es @ map unpack1 (drop k es)"
proof (induction "length es - k" arbitrary: k es)
  case 0 then show ?case by simp
next
  case (Suc d)
  then have k: "k < length es" by simp
  let ?es' = "es[k := unpack1 (es ! k)]"
  have upd: "(case es ! k of Pair num val \<Rightarrow> if num = 1 then es[k := Scalar val] else es | _ \<Rightarrow> es) = ?es'"
    using list_update_id[of es k] by (cases "es ! k") (auto simp: unpack1_def)
  have step: "unpack_singles [k..<length es] es = unpack_singles [Suc k..<length ?es'] ?es'"
    using k by (simp add: upt_conv_Cons upd)
  have "unpack_singles [Suc k..<length ?es'] ?es' = take (Suc k) ?es' @ map unpack1 (drop (Suc k) ?es')"
    using Suc(2) k by (intro Suc(1)) auto
  also have "\<dots> = take k es @ map unpack1 (drop k es)"
    using k by (simp add: take_Suc_conv_app_nth Cons_nth_drop_Suc[symmetric])
  finally show ?case using step by simp
qed

lemma rle_channel_map: "rle_channel B = map unpack1 (rle_groups (map py_int (zigzag_channel B)))"
  using unpack_singles_upt[of 0] by (simp add: rle_channel_def Let_def)

lemma expand_unpack1: "expand_entry (unpack1 e) = expand_entry e"
  by (cases e) (auto simp: unpack1_def)

lemma entry_value_unpack1: "entry_value (unpack1 e) = entry_value e"
  by (cases e) (auto simp: unpack1_def)

lemma expand_rle_groups: "expand_entries (map unpack1 (rle_groups xs)) = xs"
proof -
  have "map (\<lambda>p. expand_entry (unpack1 (case p of (k, g) \<Rightarrow> Pair (length g) k))) (groupby xs)
      = map snd (groupby xs)"
    by (rule map_cong) (auto simp: expand_unpack1 dest: groupby_runs)
  then have "concat (map (\<lambda>p. expand_entry (unpack1 (case p of (k, g) \<Rightarrow> Pair (length g) k))) (groupby xs)) = xs"
    by (simp only: groupby_concat)
  then show ?thesis
    by (simp add: expand_entries_def rle_groups_def comp_def)
qed

lemma rle_pairs_ge2: "Pair n v \<in> set (map unpack1 (rle_groups xs)) \<Longrightarrow> 2 \<le> n"
proof -
  assume "Pair n v \<in> set (map unpack1 (rle_groups xs))"
  then obtain k g where kg: "(k, g) \<in> set (groupby xs)" and e: "Pair n v = unpack1 (Pair (length g) k)"
    by (auto simp: rle_groups_def)
  from groupby_runs[OF kg] have "0 < length g" by blast
  moreover from e have "n = length g \<and> length g \<noteq> 1"
    by (simp add: unpack1_def split: if_splits)
  ultimately show "2 \<le> n" by arith
qed

lemma rle_no_rate: "RateVal r \<notin> set (map unpack1 (rle_groups xs))"
  by (auto simp: rle_groups_def unpack1_def split: if_splits)

lemma groupby_hd: "xs \<noteq> [] \<Longrightarrow> groupby xs \<noteq> [] \<and> fst (hd (groupby xs)) = hd xs"
  by (cases xs) auto

lemma groupby_keys_adj: "distinct_adj (map fst (groupby xs))"
proof (induction xs rule: groupby.induct)
  case 1 then show ?case by simp
next
  case (2 x xs)
  show ?case
  proof (cases "dropWhile (\<lambda>y. y = x) xs = []")
    case True
    have "groupby (x # xs) = [(x, x # takeWhile (\<lambda>y. y = x) xs)]"
      by (simp only: groupby.simps True)
    then show ?thesis by simp
  next
    case False
    then have "hd (dropWhile (\<lambda>y. y = x) xs) \<noteq> x"
      using hd_dropWhile[of "\<lambda>y. y = x" xs] by simp
    with False 2 groupby_hd[OF False] show ?thesis
      by (simp add: distinct_adj_Cons hd_map)
  qed
qed

lemma rle_values: "map entry_value (map unpack1 (rle_groups xs)) = map fst (groupby xs)"
  by (auto simp: rle_groups_def entry_value_unpack1)

lemma rle_values_adj:
  assumes "Suc k < length (map unpack1 (rle_groups xs))"
  shows "entry_value (map unpack1 (rle_groups xs) ! k) \<noteq> entry_value (map unpack1 (rle_groups xs) ! Suc k)"
proof -
  let ?P = "map unpack1 (rle_groups xs)"
  have "distinct_adj (map entry_value ?P)"
    by (simp only: rle_values groupby_keys_adj)
  then have "map entry_value ?P ! k \<noteq> map entry_value ?P ! Suc k"
    using assms by (simp add: distinct_adj_conv_nth del: map_map)
  then show ?thesis using assms by simp
qed

lemma groupby_replicate: "groupby (replicate (Suc n) x) = [(x, replicate (Suc n) x)]"
  by (simp add: takeWhile_replicate dropWhile_replicate)

lemma groupby_distinct_adj: "distinct_adj xs \<Longrightarrow> groupby xs = map (\<lambda>x. (x, [x])) xs"
proof (induction xs)
  case Nil then show ?case by simp
next
  case (Cons x xs)
  then show ?case by (cases xs) (auto simp: distinct_adj_Cons)
qed

lemma distinct_imp_distinct_adj: "distinct xs \<Longrightarrow> distinct_adj xs"
  by (induction xs) (auto simp: distinct_adj_Cons)

lemma rle_distinct: "distinct xs \<Longrightarrow> map unpack1 (rle_groups xs) = map Scalar xs"
  by (simp add: rle_groups_def groupby_distinct_adj distinct_imp_distinct_adj unpack1_def comp_def)

lemma zigzag_zero_block: "zigzag_block (replicate 8 (replicate 8 0)) = replicate 64 0"
proof -
  have "map (\<lambda>(x, y). replicate 8 (replicate 8 (0::real)) ! x ! y) zigzag_order = map (\<lambda>p. 0) zigzag_order"
    using zigzag_order_bounds by (intro map_cong) auto
  then show ?thesis
    by (simp add: zigzag_block_def map_replicate_const length_zigzag_order)
qed

lemma encode_nth:
  "ch < 3 \<Longrightarrow> encode_and_save_quantised_dct_img img QL QC ! ch =
     encode_channel (img ! ch) @ (if ch = 0 then [RateVal QL, RateVal QC] else [])"
  by (auto simp: encode_and_save_quantised_dct_img_def Let_def upt_rec nth_list_update nth_Cons split: nat.splits)

lemma pre_metadata_encode:
  "ch < 3 \<Longrightarrow> pre_metadata ch (encode_and_save_quantised_dct_img img QL QC ! ch) = rle_channel (img ! ch)"
  by (simp add: encode_nth pre_metadata_def meta_count_def encode_channel_def)

lemma zigzag_ramp:
  "map py_int (zigzag_block ramp_block) =
     [0, 1, 8, 16, 9, 2, 3, 10, 17, 24, 32, 25, 18, 11, 4, 5, 12, 19, 26, 33, 40, 48, 41, 34, 27,
      20, 13, 6, 7, 14, 21, 28, 35, 42, 49, 56, 57, 50, 43, 36, 29, 22, 15, 23, 30, 37, 44, 51, 58,
      59, 52, 45, 38, 31, 39, 46, 53, 60, 61, 54, 47, 55, 62, 63]"
  by (simp add: zigzag_block_def zigzag_order_def zigzag_diagonal_def ramp_block_def py_int_def upt_rec)

subsection \<open>Claim C1: the run-length entries expand to the encoded coefficients\<close>

text \<open>
  C1.  For every channel, expanding the entries before the trailing metadata (a pair to
  \<open>run_length\<close> copies of its value, a bare scalar to itself) gives back exactly the
  flat zigzag-ordered integer sequence that was encoded, and the number of expanded
  coefficients is \<open>block_height * block_width * 64\<close>.  A channel of one all-zero block
  encodes to the single pair \<open>(64, 0)\<close>; a channel of one block whose 64 integer zigzag
  values are pairwise distinct encodes to 64 bare scalars.
\<close>

theorem rle_roundtrip:
  assumes "ch < 3" and "length img_blocks = 3"
  shows "let B = img_blocks ! ch;
             P = pre_metadata ch (encode_and_save_quantised_dct_img img_blocks QL_rate QC_rate ! ch)
         in expand_entries P = map py_int (zigzag_channel B) \<and>
            length (expand_entries P) = block_height B * block_width B * 64 \<and>
            (block_height B = 1 \<and> block_width B = 1 \<and> block_at B 0 0 = replicate 8 (replicate 8 0)
               \<longrightarrow> P = [Pair 64 0]) \<and>
            (block_height B = 1 \<and> block_width B = 1 \<and>
             distinct (map py_int (zigzag_block (block_at B 0 0)))
               \<longrightarrow> P = map (\<lambda>v. Scalar (py_int v)) (zigzag_block (block_at B 0 0)) \<and> length P = 64)"
proof -
  define B where "B = img_blocks ! ch"
  define P where "P = pre_metadata ch (encode_and_save_quantised_dct_img img_blocks QL_rate QC_rate ! ch)"
  have P: "P = map unpack1 (rle_groups (map py_int (zigzag_channel B)))"
    using assms(1) by (simp add: P_def B_def pre_metadata_encode rle_channel_map)
  have 1: "expand_entries P = map py_int (zigzag_channel B)"
    by (simp only: P expand_rle_groups)
  have 2: "length (expand_entries P) = block_height B * block_width B * 64"
    by (simp add: 1 length_zigzag_channel)
  have single: "zigzag_channel B = zigzag_block (block_at B 0 0)"
    if "block_height B = 1" "block_width B = 1"
    using that by (simp add: zigzag_channel_concat)
  have 3: "P = [Pair 64 0]"
    if "block_height B = 1" "block_width B = 1" "block_at B 0 0 = replicate 8 (replicate 8 0)"
  proof -
    have "map py_int (zigzag_channel B) = replicate (Suc 63) 0"
      using that by (simp add: single zigzag_zero_block py_int_def)
    then have "rle_groups (map py_int (zigzag_channel B)) = [Pair 64 0]"
      by (simp only: rle_groups_def groupby_replicate) simp
    then show ?thesis by (simp add: P unpack1_def)
  qed
  have 4: "P = map (\<lambda>v. Scalar (py_int v)) (zigzag_block (block_at B 0 0)) \<and> length P = 64"
    if "block_height B = 1" "block_width B = 1" "distinct (map py_int (zigzag_block (block_at B 0 0)))"
    using that by (simp add: P single rle_distinct length_zigzag_block)
  show ?thesis
    unfolding Let_def B_def[symmetric] P_def[symmetric] using 1 2 3 4 by blast
qed

theorem rle_roundtrip_witness:
  "(0::nat) < 3 \<and> (1::nat) < 3 \<and>
   length [one_block zero_block, one_block ramp_block, one_block zero_block] = 3 \<and>
   pre_metadata 0 (encode_and_save_quantised_dct_img
       [one_block zero_block, one_block ramp_block, one_block zero_block] 1 1 ! 0) = [Pair 64 0] \<and>
   expand_entries (pre_metadata 0 (encode_and_save_quantised_dct_img
       [one_block zero_block, one_block ramp_block, one_block zero_block] 1 1 ! 0)) = replicate 64 0 \<and>
   pre_metadata 1 (encode_and_save_quantised_dct_img
       [one_block zero_block, one_block ramp_block, one_block zero_block] 1 1 ! 1) =
     map Scalar [0, 1, 8, 16, 9, 2, 3, 10, 17, 24, 32, 25, 18, 11, 4, 5, 12, 19, 26, 33, 40, 48, 41, 34, 27,
      20, 13, 6, 7, 14, 21, 28, 35, 42, 49, 56, 57, 50, 43, 36, 29, 22, 15, 23, 30, 37, 44, 51, 58,
      59, 52, 45, 38, 31, 39, 46, 53, 60, 61, 54, 47, 55, 62, 63] \<and>
   length (expand_entries (pre_metadata 1 (encode_and_save_quantised_dct_img
       [one_block zero_block, one_block ramp_block, one_block zero_block] 1 1 ! 1))) = 64"
proof -
  let ?W = "[one_block zero_block, one_block ramp_block, one_block zero_block]"
  have len: "length ?W = 3" by simp
  have d: "distinct (map py_int (zigzag_block ramp_block))"
    by (simp only: zigzag_ramp) simp
  have z: "map py_int (zigzag_block zero_block) = replicate 64 0"
    by (simp add: zero_block_def zigzag_zero_block py_int_def)
  have c0: "zigzag_channel (one_block zero_block) = zigzag_block zero_block"
    by (simp add: zigzag_channel_concat one_block_def)
  have lt0: "(0::nat) < 3" and lt1: "(1::nat) < 3" by simp_all
  note r0 = rle_roundtrip[of 0 ?W 1 1, unfolded Let_def, OF lt0 len]
  note r1 = rle_roundtrip[of 1 ?W 1 1, unfolded Let_def, OF lt1 len]
  have a0: "pre_metadata 0 (encode_and_save_quantised_dct_img ?W 1 1 ! 0) = [Pair 64 0]"
    using r0 by (simp add: one_block_def zero_block_def)
  have b0: "expand_entries (pre_metadata 0 (encode_and_save_quantised_dct_img ?W 1 1 ! 0)) = replicate 64 0"
    using r0 [THEN conjunct1] by (simp add: c0 z)
  have a1: "pre_metadata 1 (encode_and_save_quantised_dct_img ?W 1 1 ! 1) =
      map (\<lambda>v. Scalar (py_int v)) (zigzag_block ramp_block)"
    using r1 d by (simp add: one_block_def)
  have b1: "length (expand_entries (pre_metadata 1 (encode_and_save_quantised_dct_img ?W 1 1 ! 1))) = 64"
    using r1 [THEN conjunct2, THEN conjunct1] by (simp add: one_block_def)
  have m: "map (\<lambda>v. Scalar (py_int v)) (zigzag_block ramp_block) = map Scalar (map py_int (zigzag_block ramp_block))"
    by simp
  show ?thesis
    using a0 b0 b1 a1 unfolding m zigzag_ramp by simp
qed

lemma rle_channel_zero: "rle_channel (one_block zero_block) = [Pair 64 0]"
proof -
  have "map py_int (zigzag_channel (one_block zero_block)) = replicate (Suc 63) 0"
    by (simp add: zigzag_channel_concat one_block_def zero_block_def zigzag_zero_block py_int_def)
  then have "rle_groups (map py_int (zigzag_channel (one_block zero_block))) = [Pair 64 0]"
    by (simp only: rle_groups_def groupby_replicate) simp
  then show ?thesis by (simp add: rle_channel_map unpack1_def)
qed

lemma rle_channel_ramp:
  "rle_channel (one_block ramp_block) =
     map Scalar [0, 1, 8, 16, 9, 2, 3, 10, 17, 24, 32, 25, 18, 11, 4, 5, 12, 19, 26, 33, 40, 48, 41, 34, 27,
      20, 13, 6, 7, 14, 21, 28, 35, 42, 49, 56, 57, 50, 43, 36, 29, 22, 15, 23, 30, 37, 44, 51, 58,
      59, 52, 45, 38, 31, 39, 46, 53, 60, 61, 54, 47, 55, 62, 63]"
proof -
  have "zigzag_channel (one_block ramp_block) = zigzag_block ramp_block"
    by (simp add: zigzag_channel_concat one_block_def)
  then have "rle_channel (one_block ramp_block) = map unpack1 (rle_groups (map py_int (zigzag_block ramp_block)))"
    by (simp add: rle_channel_map)
  also have "\<dots> = map Scalar (map py_int (zigzag_block ramp_block))"
    by (rule rle_distinct) (simp only: zigzag_ramp, simp)
  finally show ?thesis by (simp only: zigzag_ramp)
qed

subsection \<open>Claim C9: the trailing metadata\<close>

text \<open>
  C9.  Every channel's entry list is its run-length entries followed by its block-grid
  height and then its block-grid width; the luma channel (index 0) alone has \<open>QL_rate\<close>
  and then \<open>QC_rate\<close> after them, so that its last four entries are \<open>block_height\<close>,
  \<open>block_width\<close>, \<open>QL_rate\<close>, \<open>QC_rate\<close>.
\<close>

theorem channel_metadata:
  assumes "length img_blocks = 3"
  shows "let E = encode_and_save_quantised_dct_img img_blocks QL_rate QC_rate
         in length E = 3 \<and>
            E ! 0 = rle_channel (img_blocks ! 0) @
                    [Scalar (int (block_height (img_blocks ! 0))), Scalar (int (block_width (img_blocks ! 0))),
                     RateVal QL_rate, RateVal QC_rate] \<and>
            E ! 1 = rle_channel (img_blocks ! 1) @
                    [Scalar (int (block_height (img_blocks ! 1))), Scalar (int (block_width (img_blocks ! 1)))] \<and>
            E ! 2 = rle_channel (img_blocks ! 2) @
                    [Scalar (int (block_height (img_blocks ! 2))), Scalar (int (block_width (img_blocks ! 2)))]"
  by (simp add: encode_nth encode_channel_def Let_def)
     (simp add: encode_and_save_quantised_dct_img_def)

theorem channel_metadata_witness:
  "length [one_block zero_block, one_block ramp_block, one_block zero_block] = 3 \<and>
   encode_and_save_quantised_dct_img
       [one_block zero_block, one_block ramp_block, one_block zero_block] 1 2 ! 0 =
     [Pair 64 0, Scalar 1, Scalar 1, RateVal 1, RateVal 2] \<and>
   encode_and_save_quantised_dct_img
       [one_block zero_block, one_block ramp_block, one_block zero_block] 1 2 ! 2 =
     [Pair 64 0, Scalar 1, Scalar 1]"
proof -
  let ?W = "[one_block zero_block, one_block ramp_block, one_block zero_block]"
  have len: "length ?W = 3" by simp
  note m = channel_metadata[of ?W 1 2, unfolded Let_def, OF len]
  have bh: "block_height (one_block zero_block) = 1" "block_width (one_block zero_block) = 1"
    by (simp_all add: one_block_def)
  have e0: "encode_and_save_quantised_dct_img ?W 1 2 ! 0 = [Pair 64 0, Scalar 1, Scalar 1, RateVal 1, RateVal 2]"
    using m [THEN conjunct2, THEN conjunct1] by (simp add: rle_channel_zero bh)
  have e2: "encode_and_save_quantised_dct_img ?W 1 2 ! 2 = [Pair 64 0, Scalar 1, Scalar 1]"
    using m [THEN conjunct2, THEN conjunct2, THEN conjunct2] by (simp add: rle_channel_zero bh)
  show ?thesis using len e0 e2 by simp
qed

subsection \<open>Claim C10: runs are maximal and a pair has run length at least 2\<close>

text \<open>
  C10.  In the entries of a channel before its metadata, every pair \<open>[run_length, value]\<close>
  has \<open>run_length \<ge> 2\<close> (a run of length 1 is stored as a bare scalar), and any two
  consecutive entries carry distinct values, so no two adjacent entries expand to the same
  repeated value.  The entries there are bare scalars and pairs only.
\<close>

theorem rle_runs_maximal:
  assumes "ch < 3" and "length img_blocks = 3"
  shows "let P = pre_metadata ch (encode_and_save_quantised_dct_img img_blocks QL_rate QC_rate ! ch)
         in (\<forall>n v. Pair n v \<in> set P \<longrightarrow> 2 \<le> n) \<and>
            (\<forall>k. Suc k < length P \<longrightarrow> entry_value (P ! k) \<noteq> entry_value (P ! Suc k)) \<and>
            (\<forall>r. RateVal r \<notin> set P)"
proof -
  have P: "pre_metadata ch (encode_and_save_quantised_dct_img img_blocks QL_rate QC_rate ! ch)
      = map unpack1 (rle_groups (map py_int (zigzag_channel (img_blocks ! ch))))"
    using assms(1) by (simp add: pre_metadata_encode rle_channel_map)
  show ?thesis
    unfolding Let_def P using rle_pairs_ge2 rle_values_adj rle_no_rate by blast
qed

theorem rle_runs_maximal_witness:
  "(0::nat) < 3 \<and> (1::nat) < 3 \<and>
   length [one_block zero_block, one_block ramp_block, one_block zero_block] = 3 \<and>
   Pair 64 0 \<in> set (pre_metadata 0 (encode_and_save_quantised_dct_img
       [one_block zero_block, one_block ramp_block, one_block zero_block] 1 1 ! 0)) \<and>
   (2::nat) \<le> 64 \<and>
   Suc 0 < length (pre_metadata 1 (encode_and_save_quantised_dct_img
       [one_block zero_block, one_block ramp_block, one_block zero_block] 1 1 ! 1)) \<and>
   entry_value (pre_metadata 1 (encode_and_save_quantised_dct_img
       [one_block zero_block, one_block ramp_block, one_block zero_block] 1 1 ! 1) ! 0) \<noteq>
   entry_value (pre_metadata 1 (encode_and_save_quantised_dct_img
       [one_block zero_block, one_block ramp_block, one_block zero_block] 1 1 ! 1) ! Suc 0)"
proof -
  let ?W = "[one_block zero_block, one_block ramp_block, one_block zero_block]"
  let ?P0 = "pre_metadata 0 (encode_and_save_quantised_dct_img ?W 1 1 ! 0)"
  let ?P1 = "pre_metadata 1 (encode_and_save_quantised_dct_img ?W 1 1 ! 1)"
  have len: "length ?W = 3" by simp
  have lt0: "(0::nat) < 3" and lt1: "(1::nat) < 3" by simp_all
  note r0 = rle_runs_maximal[of 0 ?W 1 1, unfolded Let_def, OF lt0 len]
  note r1 = rle_runs_maximal[of 1 ?W 1 1, unfolded Let_def, OF lt1 len]
  have p0: "?P0 = [Pair 64 0]"
    by (simp add: pre_metadata_encode rle_channel_zero)
  have p1: "Suc 0 < length ?P1"
    by (simp add: pre_metadata_encode rle_channel_ramp)
  have in0: "Pair 64 0 \<in> set ?P0" by (simp add: p0)
  have ge: "(2::nat) \<le> 64"
    using r0 [THEN conjunct1] in0 by blast
  have ne: "entry_value (?P1 ! 0) \<noteq> entry_value (?P1 ! Suc 0)"
    using r1 [THEN conjunct2, THEN conjunct1] p1 by blast
  show ?thesis using len in0 ge p1 ne by simp
qed

section \<open>Properties of the colour transform\<close>






subsection \<open>Claim C5: the conversion formulas\<close>



subsection \<open>Claim C6: the stored components do not wrap around\<close>



section \<open>Properties of the chroma subsampler\<close>

subsection \<open>Claim C8: sample factor 1 leaves the planes unchanged\<close>

text \<open>
  C8.  With \<open>sample_factor = 1\<close> the three planes are returned unchanged, converted to
  floating point, with the dimensions of the input; the result does not depend on the box
  filter and no row or column is dropped.
\<close>

theorem down_sample_factor_one:
  "down_sample_cbcr boxFilter YCbCr 1 =
     [float32 (channel YCbCr 0), float32 (channel YCbCr 1), float32 (channel YCbCr 2)] \<and>
   nrows (down_sample_cbcr boxFilter YCbCr 1 ! 0) = height YCbCr \<and>
   ncols (down_sample_cbcr boxFilter YCbCr 1 ! 0) = width YCbCr \<and>
   nrows (down_sample_cbcr boxFilter YCbCr 1 ! 1) = height YCbCr \<and>
   ncols (down_sample_cbcr boxFilter YCbCr 1 ! 1) = width YCbCr \<and>
   nrows (down_sample_cbcr boxFilter YCbCr 1 ! 2) = height YCbCr \<and>
   ncols (down_sample_cbcr boxFilter YCbCr 1 ! 2) = width YCbCr \<and>
   cell (down_sample_cbcr boxFilter YCbCr 1 ! 0) i j = real (unat (px YCbCr i j 0)) \<and>
   cell (down_sample_cbcr boxFilter YCbCr 1 ! 1) i j = real (unat (px YCbCr i j 1)) \<and>
   cell (down_sample_cbcr boxFilter YCbCr 1 ! 2) i j = real (unat (px YCbCr i j 2))"
  by (simp add: down_sample_cbcr_def float32_def channel_def)

lemma slice_indices_Suc:
  "slice_indices (Suc n) s = slice_indices n s @ (if n mod s = 0 then [n] else [])"
  by (simp add: slice_indices_def)

lemma ceil_div_exact: "0 < s \<Longrightarrow> (q * s + s - 1) div s = (q::nat)"
proof -
  assume s: "0 < s"
  then have e: "q * s + s - 1 = q * s + (s - 1)" by simp
  have "(q * s + (s - 1)) div s = q" using s by (simp only: div_mult_self3) simp
  then show ?thesis by (simp only: e)
qed

lemma ceil_div_inexact: "r < s \<Longrightarrow> r \<noteq> 0 \<Longrightarrow> (q * s + r + s - 1) div s = q + (1::nat)"
proof -
  assume r: "r < s" "r \<noteq> 0"
  then have "q * s + r + s - 1 = (q + 1) * s + (r - 1)" by simp
  moreover have "((q + 1) * s + (r - 1)) div s = q + 1" using r by (simp only: div_mult_self3) simp
  ultimately show ?thesis by simp
qed

lemma ceil_div_dvd: "0 < s \<Longrightarrow> n mod s = 0 \<Longrightarrow> (n + s - 1) div s = n div (s::nat)"
  using ceil_div_exact[of s "n div s"] by auto

lemma ceil_div_step:
  assumes "0 < s"
  shows "(n + s) div s = (n + s - 1) div s + (if n mod s = 0 then 1 else (0::nat))"
proof -
  define q r where "q = n div s" and "r = n mod s"
  have n: "n = q * s + r" and r: "r < s" using assms by (auto simp: q_def r_def)
  have nr: "n mod s = r" by (simp add: r_def)
  have lhs: "(n + s) div s = q + 1"
    using r by (simp add: n div_add_self2)
  show ?thesis
  proof (cases "r = 0")
    case True
    then have "(n + s - 1) div s = q" using ceil_div_exact[OF assms, of q] n by simp
    then show ?thesis using True lhs nr by simp
  next
    case False
    then have "(n + s - 1) div s = q + 1" using ceil_div_inexact[OF r False, of q] n by simp
    then show ?thesis using False lhs nr by simp
  qed
qed

lemma slice_indices_eq:
  assumes "0 < s"
  shows "slice_indices n s = map (\<lambda>i. i * s) [0..<(n + s - 1) div s]"
proof (induction n)
  case 0
  then show ?case using assms by (simp add: slice_indices_def)
next
  case (Suc n)
  have e: "Suc n + s - 1 = n + s" by simp
  show ?case
  proof (cases "n mod s = 0")
    case True
    then have "(n + s - 1) div s * s = n"
      using ceil_div_dvd[OF assms True] by auto
    moreover have "(n + s) div s = Suc ((n + s - 1) div s)"
      using ceil_div_step[OF assms, of n] True by simp
    ultimately show ?thesis
      unfolding e using True Suc by (simp add: slice_indices_Suc)
  next
    case False
    moreover have "(n + s) div s = (n + s - 1) div s"
      using ceil_div_step[OF assms, of n] False by simp
    ultimately show ?thesis
      unfolding e using Suc by (simp add: slice_indices_Suc)
  qed
qed

lemma length_slice_indices: "0 < s \<Longrightarrow> length (slice_indices n s) = (n + s - 1) div s"
  by (simp add: slice_indices_eq)

lemma shape_down_sample:
  assumes "sample_factor > 1" and "keeps_shape boxFilter"
  shows "length (down_sample_cbcr boxFilter YCbCr sample_factor) = 3"
    "nrows (down_sample_cbcr boxFilter YCbCr sample_factor ! 0) = height YCbCr"
    "ncols (down_sample_cbcr boxFilter YCbCr sample_factor ! 0) = width YCbCr"
    "nrows (down_sample_cbcr boxFilter YCbCr sample_factor ! 1) = (height YCbCr + nat sample_factor - 1) div nat sample_factor"
    "ncols (down_sample_cbcr boxFilter YCbCr sample_factor ! 1) = (width YCbCr + nat sample_factor - 1) div nat sample_factor"
    "nrows (down_sample_cbcr boxFilter YCbCr sample_factor ! 2) = (height YCbCr + nat sample_factor - 1) div nat sample_factor"
    "ncols (down_sample_cbcr boxFilter YCbCr sample_factor ! 2) = (width YCbCr + nat sample_factor - 1) div nat sample_factor"
proof -
  have s: "0 < nat sample_factor" using assms(1) by simp
  have k: "nrows (boxFilter k a) = nrows a" "ncols (boxFilter k a) = ncols a" for k a
    using assms(2) by (simp_all add: keeps_shape_def)
  note l = length_slice_indices[OF s]
  show "length (down_sample_cbcr boxFilter YCbCr sample_factor) = 3"
    "nrows (down_sample_cbcr boxFilter YCbCr sample_factor ! 0) = height YCbCr"
    "ncols (down_sample_cbcr boxFilter YCbCr sample_factor ! 0) = width YCbCr"
    "nrows (down_sample_cbcr boxFilter YCbCr sample_factor ! 1) = (height YCbCr + nat sample_factor - 1) div nat sample_factor"
    "ncols (down_sample_cbcr boxFilter YCbCr sample_factor ! 1) = (width YCbCr + nat sample_factor - 1) div nat sample_factor"
    "nrows (down_sample_cbcr boxFilter YCbCr sample_factor ! 2) = (height YCbCr + nat sample_factor - 1) div nat sample_factor"
    "ncols (down_sample_cbcr boxFilter YCbCr sample_factor ! 2) = (width YCbCr + nat sample_factor - 1) div nat sample_factor"
    using assms(1)
    by (simp_all add: down_sample_cbcr_def Let_def step_slice_def float32_def channel_def k l del: One_nat_def)
qed

lemma slice_indices_5_2: "slice_indices 5 2 = [0, 2, 4]"
  by (simp add: slice_indices_def upt_rec)

lemma slice_indices_7_2: "slice_indices 7 2 = [0, 2, 4, 6]"
  by (simp add: slice_indices_def upt_rec)

lemma slice_indices_8_2: "slice_indices 8 2 = [0, 2, 4, 6]"
  by (simp add: slice_indices_def upt_rec)

subsection \<open>Claim C4: the dimensions of the subsampled planes\<close>

text \<open>
  The slice \<open>[::sample_factor]\<close> keeps the indices \<open>0, sample_factor, 2 * sample_factor, ...\<close>
  and so rounds the quotient up.  A 5 x 7 image with \<open>sample_factor = 2\<close> has chroma planes
  of 3 x 4 cells, while \<open>floor (5 / 2) = 2\<close> and \<open>floor (7 / 2) = 3\<close>.  The box filter
  keeps the shape of its input, so the identity stands for it here.
\<close>

theorem down_sample_dims_counterexample:
  "nrows (down_sample_cbcr (\<lambda>k a. a) (Image 5 7 (\<lambda>i j c. 0)) 2 ! 1) = 3 \<and>
   ncols (down_sample_cbcr (\<lambda>k a. a) (Image 5 7 (\<lambda>i j c. 0)) 2 ! 1) = 4 \<and>
   nrows (down_sample_cbcr (\<lambda>k a. a) (Image 5 7 (\<lambda>i j c. 0)) 2 ! 2) = 3 \<and>
   ncols (down_sample_cbcr (\<lambda>k a. a) (Image 5 7 (\<lambda>i j c. 0)) 2 ! 2) = 4 \<and>
   (5::nat) div 2 = 2 \<and> (7::nat) div 2 = 3"
  by (simp add: down_sample_cbcr_def Let_def step_slice_def float32_def channel_def slice_indices_5_2 slice_indices_7_2)

text \<open>
  C4, as the code has it.  For every input of height \<open>h\<close> and width \<open>w\<close> and every
  \<open>sample_factor > 1\<close>, the Cb and Cr planes have
  \<open>ceiling (h / sample_factor)\<close> rows and \<open>ceiling (w / sample_factor)\<close> columns (which is
  \<open>h div sample_factor\<close>, respectively \<open>w div sample_factor\<close>, when \<open>sample_factor\<close> divides
  the dimension), while the Y plane keeps \<open>h\<close> rows and \<open>w\<close> columns.
\<close>

theorem down_sample_dims:
  assumes "sample_factor > 1" and "keeps_shape boxFilter"
  shows "let s = nat sample_factor; P = down_sample_cbcr boxFilter YCbCr sample_factor
         in length P = 3 \<and>
            nrows (P ! 0) = height YCbCr \<and> ncols (P ! 0) = width YCbCr \<and>
            nrows (P ! 1) = (height YCbCr + s - 1) div s \<and> ncols (P ! 1) = (width YCbCr + s - 1) div s \<and>
            nrows (P ! 2) = (height YCbCr + s - 1) div s \<and> ncols (P ! 2) = (width YCbCr + s - 1) div s \<and>
            (height YCbCr mod s = 0 \<longrightarrow> nrows (P ! 1) = height YCbCr div s \<and> nrows (P ! 2) = height YCbCr div s) \<and>
            (width YCbCr mod s = 0 \<longrightarrow> ncols (P ! 1) = width YCbCr div s \<and> ncols (P ! 2) = width YCbCr div s)"
proof -
  have s: "0 < nat sample_factor" using assms(1) by simp
  note d = shape_down_sample[OF assms, of YCbCr]
  have h: "nrows (down_sample_cbcr boxFilter YCbCr sample_factor ! 1) = height YCbCr div nat sample_factor \<and>
           nrows (down_sample_cbcr boxFilter YCbCr sample_factor ! 2) = height YCbCr div nat sample_factor"
    if "height YCbCr mod nat sample_factor = 0"
    using ceil_div_dvd[OF s that] by (simp only: d)
  have w: "ncols (down_sample_cbcr boxFilter YCbCr sample_factor ! 1) = width YCbCr div nat sample_factor \<and>
           ncols (down_sample_cbcr boxFilter YCbCr sample_factor ! 2) = width YCbCr div nat sample_factor"
    if "width YCbCr mod nat sample_factor = 0"
    using ceil_div_dvd[OF s that] by (simp only: d)
  show ?thesis
    unfolding Let_def using d h w by blast
qed

theorem down_sample_dims_witness:
  "(2::int) > 1 \<and> keeps_shape (\<lambda>k a. a) \<and>
   nrows (down_sample_cbcr (\<lambda>k a. a) (Image 5 8 (\<lambda>i j c. 0)) 2 ! 0) = 5 \<and>
   ncols (down_sample_cbcr (\<lambda>k a. a) (Image 5 8 (\<lambda>i j c. 0)) 2 ! 0) = 8 \<and>
   nrows (down_sample_cbcr (\<lambda>k a. a) (Image 5 8 (\<lambda>i j c. 0)) 2 ! 1) = 3 \<and>
   ncols (down_sample_cbcr (\<lambda>k a. a) (Image 5 8 (\<lambda>i j c. 0)) 2 ! 1) = 4 \<and>
   nrows (down_sample_cbcr (\<lambda>k a. a) (Image 5 8 (\<lambda>i j c. 0)) 2 ! 2) = 3 \<and>
   ncols (down_sample_cbcr (\<lambda>k a. a) (Image 5 8 (\<lambda>i j c. 0)) 2 ! 2) = 4"
proof -
  have g: "(2::int) > 1" by simp
  have k: "keeps_shape (\<lambda>k a. a)" by (simp add: keeps_shape_def)
  note d = down_sample_dims[OF g k, of "Image 5 8 (\<lambda>i j c. 0)", unfolded Let_def]
  have n: "nat 2 = 2" by simp
  show ?thesis
    using g k d unfolding n by simp
qed

section \<open>Properties of the block transform and quantiser\<close>

lemma crop_to_8_ok:
  assumes "0 < nrows p"
  shows "crop_to_8 p = Inr (Array2 (nrows p - nrows p mod 8) (ncols p - ncols p mod 8) (cell p))"
proof (cases "nrows p mod 8 > 0 \<or> ncols p mod 8 > 0")
  case True
  then show ?thesis using assms by (simp add: crop_to_8_def Let_def)
next
  case False
  then have "Array2 (nrows p - nrows p mod 8) (ncols p - ncols p mod 8) (cell p) = p"
    by (cases p) simp
  then show ?thesis using False by (simp add: crop_to_8_def Let_def)
qed

lemma crop_to_8_error: "nrows p = 0 \<Longrightarrow> ncols p mod 8 > 0 \<Longrightarrow> crop_to_8 p = Inl IndexError"
  by (simp add: crop_to_8_def Let_def)

lemma sub_mod_8: "(n - n mod 8) mod 8 = (0::nat)" "(n - n mod 8) div 8 = n div 8"
  by (simp_all add: minus_mod_eq_mult_div)

lemma split_into_blocks_ok:
  assumes "0 < nrows p"
  shows "split_into_blocks p =
     Inr (Blocks ((nrows p - nrows p mod 8) div 8) ((ncols p - ncols p mod 8) div 8)
            (\<lambda>i j. map (\<lambda>x. map (\<lambda>y. cell p (8 * i + x) (8 * j + y)) [0..<8]) [0..<8]))"
  by (simp add: split_into_blocks_def crop_to_8_ok[OF assms] view_as_blocks_def sub_mod_8)

lemma row_fold:
  assumes "distinct js"
  shows "block_at (fold (\<lambda>j B. set_block B i j (f (block_at B i j))) js B) i' j' =
           (if i' = i \<and> j' \<in> set js then f (block_at B i j') else block_at B i' j') \<and>
         block_height (fold (\<lambda>j B. set_block B i j (f (block_at B i j))) js B) = block_height B \<and>
         block_width (fold (\<lambda>j B. set_block B i j (f (block_at B i j))) js B) = block_width B"
  using assms
proof (induction js arbitrary: B)
  case Nil
  then show ?case by simp
next
  case (Cons j js)
  let ?B = "set_block B i j (f (block_at B i j))"
  from Cons have IH: "block_at (fold (\<lambda>j B. set_block B i j (f (block_at B i j))) js ?B) i' j' =
           (if i' = i \<and> j' \<in> set js then f (block_at ?B i j') else block_at ?B i' j') \<and>
         block_height (fold (\<lambda>j B. set_block B i j (f (block_at B i j))) js ?B) = block_height ?B \<and>
         block_width (fold (\<lambda>j B. set_block B i j (f (block_at B i j))) js ?B) = block_width ?B"
    by simp
  from Cons.prems have "j \<notin> set js" by simp
  then show ?case using IH by (auto simp: set_block_def)
qed

lemma transform_row_at:
  "block_at (transform_row f i B) i' j' =
     (if i' = i \<and> j' < block_width B then f (block_at B i j') else block_at B i' j')"
  "block_height (transform_row f i B) = block_height B"
  "block_width (transform_row f i B) = block_width B"
  using row_fold[of "[0..<block_width B]" i f B i' j'] by (simp_all add: transform_row_def)

lemma rows_fold:
  assumes "distinct is"
  shows "block_at (fold (transform_row f) is B) i' j' =
           (if i' \<in> set is \<and> j' < block_width B then f (block_at B i' j') else block_at B i' j') \<and>
         block_height (fold (transform_row f) is B) = block_height B \<and>
         block_width (fold (transform_row f) is B) = block_width B"
  using assms
proof (induction "is" arbitrary: B)
  case Nil
  then show ?case by simp
next
  case (Cons i "is")
  let ?B = "transform_row f i B"
  from Cons have IH: "block_at (fold (transform_row f) is ?B) i' j' =
           (if i' \<in> set is \<and> j' < block_width ?B then f (block_at ?B i' j') else block_at ?B i' j') \<and>
         block_height (fold (transform_row f) is ?B) = block_height ?B \<and>
         block_width (fold (transform_row f) is ?B) = block_width ?B"
    by simp
  from Cons.prems have "i \<notin> set is" by simp
  then show ?case using IH by (auto simp: transform_row_at)
qed

lemma transform_blocks_at:
  "block_at (transform_blocks f B) i j =
     (if i < block_height B \<and> j < block_width B then f (block_at B i j) else block_at B i j)"
  "block_height (transform_blocks f B) = block_height B"
  "block_width (transform_blocks f B) = block_width B"
  using rows_fold[of "[0..<block_height B]" f B i j] by (simp_all add: transform_blocks_def)



lemma is_8x8_nth: "is_8x8 b \<Longrightarrow> x < 8 \<Longrightarrow> length (b ! x) = 8"
  by (simp add: is_8x8_def list_all_length)


lemma is_8x8_view: "is_8x8 (map (\<lambda>x. map (\<lambda>y. g x y) [0..<8]) [0..<8])"
  by (simp add: is_8x8_def list_all_length)



lemma view_nth:
  "x < 8 \<Longrightarrow> y < 8 \<Longrightarrow>
   map (\<lambda>x. map (\<lambda>y. g x y) [0..<8]) [0..<8] ! x ! y = g x y"
  by simp



subsection \<open>Claim C3: cropping and partition into 8x8 blocks\<close>

text \<open>
  C3.  For a plane of height \<open>h\<close> and width \<open>w\<close> the quantiser keeps the first
  \<open>h - h mod 8\<close> rows and the first \<open>w - w mod 8\<close> columns and splits them into a grid of
  \<open>(h - h mod 8) / 8\<close> by \<open>(w - w mod 8) / 8\<close> blocks, each 8x8, block \<open>(i, j)\<close> holding rows
  \<open>8 i .. 8 i + 7\<close> and columns \<open>8 j .. 8 j + 7\<close>: every kept cell lies in exactly the block
  of its row and column, and the grid of the quantiser's result has the same shape.  A
  16 x 16 plane gives a 2 x 2 grid.  (A plane has at least one row.)
\<close>

theorem crop_and_partition:
  assumes "0 < nrows p"
  shows "\<exists>B. split_into_blocks p = Inr B \<and>
      block_height B = (nrows p - nrows p mod 8) div 8 \<and>
      block_width B = (ncols p - ncols p mod 8) div 8 \<and>
      8 * block_height B = nrows p - nrows p mod 8 \<and>
      8 * block_width B = ncols p - ncols p mod 8 \<and>
      (\<forall>i<block_height B. \<forall>j<block_width B. is_8x8 (block_at B i j) \<and>
          (\<forall>x<8. \<forall>y<8. block_at B i j ! x ! y = cell p (8 * i + x) (8 * j + y))) \<and>
      (\<forall>r<nrows p - nrows p mod 8. \<forall>c<ncols p - ncols p mod 8.
          block_at B (r div 8) (c div 8) ! (r mod 8) ! (c mod 8) = cell p r c) \<and>
      (\<exists>T. dct_and_quantise_channel dct Qlum Qchrom QL_rate QC_rate ch p = Inr T \<and>
           block_height T = block_height B \<and> block_width T = block_width B) \<and>
      (nrows p = 16 \<and> ncols p = 16 \<longrightarrow> block_height B = 2 \<and> block_width B = 2)"
proof -
  define B where "B = Blocks ((nrows p - nrows p mod 8) div 8) ((ncols p - ncols p mod 8) div 8)
            (\<lambda>i j. map (\<lambda>x. map (\<lambda>y. cell p (8 * i + x) (8 * j + y)) [0..<8]) [0..<8])"
  have s: "split_into_blocks p = Inr B"
    by (simp add: B_def split_into_blocks_ok[OF assms])
  have h: "block_height B = (nrows p - nrows p mod 8) div 8"
    and w: "block_width B = (ncols p - ncols p mod 8) div 8"
    by (simp_all add: B_def)
  have h8: "8 * block_height B = nrows p - nrows p mod 8"
    and w8: "8 * block_width B = ncols p - ncols p mod 8"
    by (simp_all add: h w sub_mod_8 minus_mod_eq_mult_div)
  have blk: "is_8x8 (block_at B i j) \<and>
          (\<forall>x<8. \<forall>y<8. block_at B i j ! x ! y = cell p (8 * i + x) (8 * j + y))" for i j
    by (simp add: B_def is_8x8_view)
  have cov: "block_at B (r div 8) (c div 8) ! (r mod 8) ! (c mod 8) = cell p r c" for r c
    by (simp add: B_def)
  have t: "\<exists>T. dct_and_quantise_channel dct Qlum Qchrom QL_rate QC_rate ch p = Inr T \<and>
           block_height T = block_height B \<and> block_width T = block_width B"
    by (simp add: dct_and_quantise_channel_def s transform_blocks_at)
  have p16: "block_height B = 2 \<and> block_width B = 2" if "nrows p = 16 \<and> ncols p = 16"
    using that by (simp add: h w)
  show ?thesis
    using s h w h8 w8 blk cov t p16 by blast
qed

theorem crop_and_partition_witness:
  "0 < nrows (ramp_plane 17 20) \<and>
   (\<exists>B. split_into_blocks (ramp_plane 17 20) = Inr B \<and>
        block_height B = 2 \<and> block_width B = 2 \<and>
        is_8x8 (block_at B 1 1) \<and>
        block_at B 1 1 ! 0 ! 0 = 808 \<and> block_at B 1 0 ! 7 ! 7 = 1507)"
proof -
  have n: "0 < nrows (ramp_plane 17 20)" by (simp add: ramp_plane_def)
  from crop_and_partition[OF n, of "\<lambda>b. b" "flat_matrix 16" "flat_matrix 16" 1 1 0]
  obtain B where s: "split_into_blocks (ramp_plane 17 20) = Inr B"
    and h: "block_height B = (nrows (ramp_plane 17 20) - nrows (ramp_plane 17 20) mod 8) div 8"
    and w: "block_width B = (ncols (ramp_plane 17 20) - ncols (ramp_plane 17 20) mod 8) div 8"
    and blk: "\<forall>i<block_height B. \<forall>j<block_width B. is_8x8 (block_at B i j) \<and>
          (\<forall>x<8. \<forall>y<8. block_at B i j ! x ! y = cell (ramp_plane 17 20) (8 * i + x) (8 * j + y))"
    by blast
  have h2: "block_height B = 2" and w2: "block_width B = 2"
    using h w by (simp_all add: ramp_plane_def)
  have b11: "is_8x8 (block_at B 1 1)" "block_at B 1 1 ! 0 ! 0 = 808"
    using blk h2 w2 by (simp_all add: ramp_plane_def)
  have b10: "block_at B 1 0 ! 7 ! 7 = 1507"
    using blk h2 w2 by (simp add: ramp_plane_def)
  show ?thesis using n s h2 w2 b11 b10 by blast
qed


subsection \<open>Claim C2: transform, then quantise when the rate is positive\<close>



section \<open>Properties of the pipeline\<close>














subsection \<open>Claim C7: invalid parameters\<close>




end
